theory Spec2Isabelle
  imports Complex_Main
begin

section \<open>Fixed-size real vectors and matrices\<close>

text \<open>
  The notebook works on numpy arrays of float64 with documented shapes: 3- and 6-element
  vectors, 3 by 3 and 6 by 6 matrices. The shapes are carried by the types here, and the
  entries are real numbers (exact arithmetic in place of float64 rounding). A 6-vector is
  the pair of its slices \<open>v[:3]\<close> and \<open>v[3:]\<close>; a 6 by 6 matrix is the quadruple of its
  slices \<open>M[:3, :3]\<close>, \<open>M[:3, 3:]\<close>, \<open>M[3:, :3]\<close> and \<open>M[3:, 3:]\<close>.
\<close>

datatype vec3 = Vec3 real real real

datatype mat3 = Mat3 vec3 vec3 vec3

instantiation vec3 :: ab_group_add
begin

fun plus_vec3 :: "vec3 \<Rightarrow> vec3 \<Rightarrow> vec3" where
  "plus_vec3 (Vec3 a b c) (Vec3 a' b' c') = Vec3 (a + a') (b + b') (c + c')"

fun minus_vec3 :: "vec3 \<Rightarrow> vec3 \<Rightarrow> vec3" where
  "minus_vec3 (Vec3 a b c) (Vec3 a' b' c') = Vec3 (a - a') (b - b') (c - c')"

fun uminus_vec3 :: "vec3 \<Rightarrow> vec3" where
  "uminus_vec3 (Vec3 a b c) = Vec3 (- a) (- b) (- c)"

definition zero_vec3 :: vec3 where
  "zero_vec3 = Vec3 0 0 0"

instance
proof
  fix u v w :: vec3
  show "u + v + w = u + (v + w)" by (cases u, cases v, cases w) simp
  show "u + v = v + u" by (cases u, cases v) simp
  show "0 + u = u" by (cases u) (simp add: zero_vec3_def)
  show "- u + u = 0" by (cases u) (simp add: zero_vec3_def)
  show "u - v = u + - v" by (cases u, cases v) simp
qed

end

text \<open>\<open>c * v\<close> for a float \<open>c\<close> and a 3-element array \<open>v\<close>.\<close>

fun smul3 :: "real \<Rightarrow> vec3 \<Rightarrow> vec3" where
  "smul3 k (Vec3 a b c) = Vec3 (k * a) (k * b) (k * c)"

fun dot3 :: "vec3 \<Rightarrow> vec3 \<Rightarrow> real" where
  "dot3 (Vec3 a b c) (Vec3 a' b' c') = a * a' + b * b' + c * c'"

text \<open>\<open>A @ v\<close> for a 3 by 3 array \<open>A\<close> (given by its rows) and a 3-element array \<open>v\<close>.\<close>

fun mv3 :: "mat3 \<Rightarrow> vec3 \<Rightarrow> vec3" where
  "mv3 (Mat3 r0 r1 r2) v = Vec3 (dot3 r0 v) (dot3 r1 v) (dot3 r2 v)"

text \<open>\<open>A.T\<close>\<close>

fun transpose3 :: "mat3 \<Rightarrow> mat3" where
  "transpose3 (Mat3 (Vec3 a b c) (Vec3 d e f) (Vec3 g h i)) =
     Mat3 (Vec3 a d g) (Vec3 b e h) (Vec3 c f i)"

instantiation mat3 :: ring_1
begin

definition zero_mat3 :: mat3 where
  "zero_mat3 = Mat3 0 0 0"

definition one_mat3 :: mat3 where
  "one_mat3 = Mat3 (Vec3 1 0 0) (Vec3 0 1 0) (Vec3 0 0 1)"

fun plus_mat3 :: "mat3 \<Rightarrow> mat3 \<Rightarrow> mat3" where
  "plus_mat3 (Mat3 r0 r1 r2) (Mat3 s0 s1 s2) = Mat3 (r0 + s0) (r1 + s1) (r2 + s2)"

fun minus_mat3 :: "mat3 \<Rightarrow> mat3 \<Rightarrow> mat3" where
  "minus_mat3 (Mat3 r0 r1 r2) (Mat3 s0 s1 s2) = Mat3 (r0 - s0) (r1 - s1) (r2 - s2)"

fun uminus_mat3 :: "mat3 \<Rightarrow> mat3" where
  "uminus_mat3 (Mat3 r0 r1 r2) = Mat3 (- r0) (- r1) (- r2)"

text \<open>\<open>A @ B\<close>: row \<open>i\<close> of the product is the combination of the rows of \<open>B\<close> with
  the entries of row \<open>i\<close> of \<open>A\<close>.\<close>

fun vm3 :: "vec3 \<Rightarrow> mat3 \<Rightarrow> vec3" where
  "vm3 (Vec3 a b c) (Mat3 s0 s1 s2) = smul3 a s0 + smul3 b s1 + smul3 c s2"

fun times_mat3 :: "mat3 \<Rightarrow> mat3 \<Rightarrow> mat3" where
  "times_mat3 (Mat3 r0 r1 r2) B = Mat3 (vm3 r0 B) (vm3 r1 B) (vm3 r2 B)"

instance
proof
  fix A B C :: mat3
  obtain a0 a1 a2 a3 a4 a5 a6 a7 a8 where A: "A = Mat3 (Vec3 a0 a1 a2) (Vec3 a3 a4 a5) (Vec3 a6 a7 a8)"
    by (metis mat3.exhaust vec3.exhaust)
  obtain b0 b1 b2 b3 b4 b5 b6 b7 b8 where B: "B = Mat3 (Vec3 b0 b1 b2) (Vec3 b3 b4 b5) (Vec3 b6 b7 b8)"
    by (metis mat3.exhaust vec3.exhaust)
  obtain c0 c1 c2 c3 c4 c5 c6 c7 c8 where C: "C = Mat3 (Vec3 c0 c1 c2) (Vec3 c3 c4 c5) (Vec3 c6 c7 c8)"
    by (metis mat3.exhaust vec3.exhaust)
  show "A * B * C = A * (B * C)" unfolding A B C by (simp add: algebra_simps)
  show "1 * A = A" unfolding A by (simp add: one_mat3_def)
  show "A * 1 = A" unfolding A by (simp add: one_mat3_def)
  show "A + B + C = A + (B + C)" unfolding A B C by simp
  show "A + B = B + A" unfolding A B by simp
  show "0 + A = A" unfolding A by (simp add: zero_mat3_def zero_vec3_def)
  show "- A + A = 0" unfolding A by (simp add: zero_mat3_def zero_vec3_def)
  show "A - B = A + - B" unfolding A B by simp
  show "(A + B) * C = A * C + B * C" unfolding A B C by (simp add: algebra_simps)
  show "A * (B + C) = A * B + A * C" unfolding A B C by (simp add: algebra_simps)
  show "(0::mat3) \<noteq> 1" by (simp add: zero_mat3_def one_mat3_def zero_vec3_def)
qed

end

datatype vec6 = Vec6 (lin: vec3) (ang: vec3)

instantiation vec6 :: ab_group_add
begin

fun plus_vec6 :: "vec6 \<Rightarrow> vec6 \<Rightarrow> vec6" where
  "plus_vec6 (Vec6 u w) (Vec6 u' w') = Vec6 (u + u') (w + w')"

fun minus_vec6 :: "vec6 \<Rightarrow> vec6 \<Rightarrow> vec6" where
  "minus_vec6 (Vec6 u w) (Vec6 u' w') = Vec6 (u - u') (w - w')"

fun uminus_vec6 :: "vec6 \<Rightarrow> vec6" where
  "uminus_vec6 (Vec6 u w) = Vec6 (- u) (- w)"

definition zero_vec6 :: vec6 where
  "zero_vec6 = Vec6 0 0"

instance
proof
  fix u v w :: vec6
  show "u + v + w = u + (v + w)" by (cases u, cases v, cases w) (simp add: add.assoc)
  show "u + v = v + u" by (cases u, cases v) (simp add: add.commute)
  show "0 + u = u" by (cases u) (simp add: zero_vec6_def)
  show "- u + u = 0" by (cases u) (simp add: zero_vec6_def)
  show "u - v = u + - v" by (cases u, cases v) simp
qed

end

text \<open>\<open>c * v\<close> for a float \<open>c\<close> and a 6-element array \<open>v\<close>.\<close>

fun smul6 :: "real \<Rightarrow> vec6 \<Rightarrow> vec6" where
  "smul6 k (Vec6 u w) = Vec6 (smul3 k u) (smul3 k w)"

fun dot6 :: "vec6 \<Rightarrow> vec6 \<Rightarrow> real" where
  "dot6 (Vec6 u w) (Vec6 u' w') = dot3 u u' + dot3 w w'"

datatype mat6 = Mat6 (blk11: mat3) (blk12: mat3) (blk21: mat3) (blk22: mat3)

text \<open>\<open>M @ v\<close> for a 6 by 6 array and a 6-element array, by blocks.\<close>

fun mv6 :: "mat6 \<Rightarrow> vec6 \<Rightarrow> vec6" where
  "mv6 (Mat6 A B C D) (Vec6 u w) = Vec6 (mv3 A u + mv3 B w) (mv3 C u + mv3 D w)"

text \<open>\<open>M.T\<close>\<close>

fun transpose6 :: "mat6 \<Rightarrow> mat6" where
  "transpose6 (Mat6 A B C D) = Mat6 (transpose3 A) (transpose3 C) (transpose3 B) (transpose3 D)"

text \<open>\<open>scipy.linalg.block_diag(A, B)\<close> for two 3 by 3 arrays.\<close>

definition block_diag :: "mat3 \<Rightarrow> mat3 \<Rightarrow> mat6" where
  "block_diag A B = Mat6 A 0 0 B"

instantiation mat6 :: ring_1
begin

definition zero_mat6 :: mat6 where
  "zero_mat6 = Mat6 0 0 0 0"

definition one_mat6 :: mat6 where
  "one_mat6 = Mat6 1 0 0 1"

fun plus_mat6 :: "mat6 \<Rightarrow> mat6 \<Rightarrow> mat6" where
  "plus_mat6 (Mat6 A B C D) (Mat6 A' B' C' D') = Mat6 (A + A') (B + B') (C + C') (D + D')"

fun minus_mat6 :: "mat6 \<Rightarrow> mat6 \<Rightarrow> mat6" where
  "minus_mat6 (Mat6 A B C D) (Mat6 A' B' C' D') = Mat6 (A - A') (B - B') (C - C') (D - D')"

fun uminus_mat6 :: "mat6 \<Rightarrow> mat6" where
  "uminus_mat6 (Mat6 A B C D) = Mat6 (- A) (- B) (- C) (- D)"

text \<open>\<open>M @ N\<close> for two 6 by 6 arrays, by blocks.\<close>

fun times_mat6 :: "mat6 \<Rightarrow> mat6 \<Rightarrow> mat6" where
  "times_mat6 (Mat6 A B C D) (Mat6 A' B' C' D') =
     Mat6 (A * A' + B * C') (A * B' + B * D') (C * A' + D * C') (C * B' + D * D')"

instance
proof
  fix A B C :: mat6
  show "A * B * C = A * (B * C)" by (cases A, cases B, cases C) (simp add: algebra_simps)
  show "1 * A = A" by (cases A) (simp add: one_mat6_def)
  show "A * 1 = A" by (cases A) (simp add: one_mat6_def)
  show "A + B + C = A + (B + C)" by (cases A, cases B, cases C) (simp add: algebra_simps)
  show "A + B = B + A" by (cases A, cases B) (simp add: algebra_simps)
  show "0 + A = A" by (cases A) (simp add: zero_mat6_def)
  show "- A + A = 0" by (cases A) (simp add: zero_mat6_def)
  show "A - B = A + - B" by (cases A, cases B) simp
  show "(A + B) * C = A * C + B * C" by (cases A, cases B, cases C) (simp add: algebra_simps)
  show "A * (B + C) = A * B + A * C" by (cases A, cases B, cases C) (simp add: algebra_simps)
  show "(0::mat6) \<noteq> 1" by (simp add: zero_mat6_def one_mat6_def)
qed

end

section \<open>The cross-product matrix and the point transform\<close>

text \<open>\<open>hat(v)\<close> of the notebook; the operator written with a hat in the derivation
  (\<open>docs/added_mass_transformations.tex\<close>): the left cross-product matrix of a vector.\<close>

fun hat :: "vec3 \<Rightarrow> mat3" where
  "hat (Vec3 v0 v1 v2) = Mat3 (Vec3 0 (- v2) v1) (Vec3 v2 0 (- v0)) (Vec3 (- v1) v0 0)"

text \<open>
  Equation (transform2) of the derivation: the added mass matrix at the point \<open>P\<close> from
  the matrix \<open>A\<^sub>Q\<close> at the point \<open>Q\<close> and the vector \<open>r\<close> from \<open>P\<close> to \<open>Q\<close>,
  \<open>A\<^sub>P = A\<^sub>Q + [[0, - A\<^sub>Q\<^sub>1\<^sub>1 hat(r)],
     [hat(r) A\<^sub>Q\<^sub>1\<^sub>1, - hat(r) A\<^sub>Q\<^sub>1\<^sub>1 hat(r) + hat(r) A\<^sub>Q\<^sub>1\<^sub>2 - A\<^sub>Q\<^sub>2\<^sub>1 hat(r)]]\<close>.
\<close>

definition transform_spatial_inertia :: "mat6 \<Rightarrow> vec3 \<Rightarrow> mat6" where
  "transform_spatial_inertia A\<^sub>Q r =
     A\<^sub>Q + Mat6 0 (- blk11 A\<^sub>Q * hat r)
                 (hat r * blk11 A\<^sub>Q)
                 (- hat r * blk11 A\<^sub>Q * hat r + hat r * blk12 A\<^sub>Q - blk21 A\<^sub>Q * hat r)"

text \<open>Equation (pq) of the derivation: the linear velocity of \<open>Q\<close> from the linear
  velocity of \<open>P\<close> and the angular velocity.\<close>

definition velocity_at_Q :: "vec3 \<Rightarrow> vec3 \<Rightarrow> vec3 \<Rightarrow> vec3" where
  "velocity_at_Q r v\<^sub>P \<omega> = v\<^sub>P - mv3 (hat r) \<omega>"

text \<open>The quadratic form \<open>(v\<^sup>T, \<omega>\<^sup>T) A (v; \<omega>)\<close> of the kinetic energy (without the
  factor one half) in the derivation.\<close>

definition quadratic_form :: "mat6 \<Rightarrow> vec3 \<Rightarrow> vec3 \<Rightarrow> real" where
  "quadratic_form A v \<omega> = dot6 (Vec6 v \<omega>) (mv6 A (Vec6 v \<omega>))"

section \<open>Errors, quaternions and poses\<close>

text \<open>The exceptions the notebook's code can raise: \<open>ValueError\<close> and \<open>IndexError\<close> from
  numpy's allocation and indexing, \<open>ZeroDivisionError\<close> from the quaternion package,
  \<open>LinAlgError\<close> from \<open>np.linalg.inv\<close>.\<close>

datatype error = ValueError | IndexError | ZeroDivisionError | LinAlgError

text \<open>A \<open>quaternion.quaternion\<close> with its components \<open>w\<close>, \<open>x\<close>, \<open>y\<close>, \<open>z\<close>.\<close>

datatype quaternion = Quaternion real real real real

text \<open>The product \<open>*\<close> of two quaternions (the Hamilton product).\<close>

fun qmul :: "quaternion \<Rightarrow> quaternion \<Rightarrow> quaternion" where
  "qmul (Quaternion w1 x1 y1 z1) (Quaternion w2 x2 y2 z2) =
     Quaternion (w1 * w2 - x1 * x2 - y1 * y2 - z1 * z2)
                (w1 * x2 + x1 * w2 + y1 * z2 - z1 * y2)
                (w1 * y2 - x1 * z2 + y1 * w2 + z1 * x2)
                (w1 * z2 + x1 * y2 - y1 * x2 + z1 * w2)"

text \<open>The squared norm \<open>w\<^sup>2 + x\<^sup>2 + y\<^sup>2 + z\<^sup>2\<close> of a quaternion.\<close>

fun qnorm2 :: "quaternion \<Rightarrow> real" where
  "qnorm2 (Quaternion w x y z) = w * w + x * x + y * y + z * z"

text \<open>
  Modelled from the spec: \<open>quaternion.as_rotation_matrix\<close>, a function of the
  numpy-quaternion package, which the repository imports and does not contain: "the 3 by 3
  rotation matrix equivalent to the orientation quaternion", failing "if the orientation
  is not a valid rotation representation". The matrix is the one of the normalised
  quaternion; the zero quaternion has none and raises \<open>ZeroDivisionError\<close>.
\<close>

fun as_rotation_matrix :: "quaternion \<Rightarrow> error + mat3" where
  "as_rotation_matrix (Quaternion w x y z) =
     (let n = w * w + x * x + y * y + z * z in
      if n = 0 then Inl ZeroDivisionError
      else Inr (Mat3
        (Vec3 (1 - 2 * (y * y + z * z) / n) (2 * (x * y - z * w) / n) (2 * (x * z + y * w) / n))
        (Vec3 (2 * (x * y + z * w) / n) (1 - 2 * (x * x + z * z) / n) (2 * (y * z - x * w) / n))
        (Vec3 (2 * (x * z - y * w) / n) (2 * (y * z + x * w) / n) (1 - 2 * (x * x + y * y) / n))))"

text \<open>
  Modelled from the spec: \<open>quaternion.from_rotation_vector\<close>, a function of the
  numpy-quaternion package: "the quaternion exponential map \<open>exp(\<phi>)\<close> for rotation vector
  \<open>\<phi>\<close> is: if \<open>|\<phi>| = 0\<close>, the identity quaternion \<open>(1,0,0,0)\<close>; otherwise
  \<open>(cos(|\<phi>|/2), sin(|\<phi>|/2) \<phi>/|\<phi>|)\<close>".
\<close>

fun from_rotation_vector :: "vec3 \<Rightarrow> quaternion" where
  "from_rotation_vector (Vec3 x y z) =
     (let n = sqrt (x * x + y * y + z * z) in
      if n = 0 then Quaternion 1 0 0 0
      else Quaternion (cos (n / 2)) (sin (n / 2) * (x / n)) (sin (n / 2) * (y / n))
                      (sin (n / 2) * (z / n)))"

text \<open>\<open>pose_dtype\<close>: a timestamp \<open>'t'\<close>, a position \<open>'p'\<close> and an orientation \<open>'q'\<close>.\<close>

record pose =
  pose_t :: real
  pose_p :: vec3
  pose_q :: quaternion

section \<open>Matrix inversion\<close>

text \<open>Entry \<open>i\<close> of a vector, counted from 0 as numpy does.\<close>

fun coord3 :: "vec3 \<Rightarrow> nat \<Rightarrow> real" where
  "coord3 (Vec3 a b c) i = (if i = 0 then a else if i = 1 then b else c)"

fun coord6 :: "vec6 \<Rightarrow> nat \<Rightarrow> real" where
  "coord6 (Vec6 u w) i = (if i < 3 then coord3 u i else coord3 w (i - 3))"

text \<open>The six rows of a 6 by 6 array, and the array of six rows.\<close>

fun rows6 :: "mat6 \<Rightarrow> vec6 list" where
  "rows6 (Mat6 (Mat3 a0 a1 a2) (Mat3 b0 b1 b2) (Mat3 c0 c1 c2) (Mat3 d0 d1 d2)) =
     [Vec6 a0 b0, Vec6 a1 b1, Vec6 a2 b2, Vec6 c0 d0, Vec6 c1 d1, Vec6 c2 d2]"

fun of_rows6 :: "vec6 list \<Rightarrow> mat6" where
  "of_rows6 [Vec6 a0 b0, Vec6 a1 b1, Vec6 a2 b2, Vec6 c0 d0, Vec6 c1 d1, Vec6 c2 d2] =
     Mat6 (Mat3 a0 a1 a2) (Mat3 b0 b1 b2) (Mat3 c0 c1 c2) (Mat3 d0 d1 d2)"
| "of_rows6 _ = 0"

text \<open>
  A row of the augmented array \<open>[M | I]\<close> is a pair of 6-vectors. The elimination keeps
  the rows that already hold a pivot (one per finished column, in the order of the
  columns) apart from the rows that do not.
\<close>

type_synonym aug_row = "vec6 \<times> vec6"

fun scale_row :: "real \<Rightarrow> aug_row \<Rightarrow> aug_row" where
  "scale_row c (a, e) = (smul6 c a, smul6 c e)"

text \<open>Subtract from a row the multiple of the pivot row that clears its column \<open>k\<close>.\<close>

fun eliminate :: "nat \<Rightarrow> aug_row \<Rightarrow> aug_row \<Rightarrow> aug_row" where
  "eliminate k (pa, pe) (a, e) = (a - smul6 (coord6 a k) pa, e - smul6 (coord6 a k) pe)"

text \<open>The first row with a nonzero entry in column \<open>k\<close>, and the other rows.\<close>

fun find_pivot :: "nat \<Rightarrow> aug_row list \<Rightarrow> (aug_row \<times> aug_row list) option" where
  "find_pivot k [] = None"
| "find_pivot k (r # rs) =
     (if coord6 (fst r) k \<noteq> 0 then Some (r, rs)
      else (case find_pivot k rs of None \<Rightarrow> None | Some (p, rest) \<Rightarrow> Some (p, r # rest)))"

fun gauss_jordan :: "nat list \<Rightarrow> aug_row list \<Rightarrow> aug_row list \<Rightarrow> error + aug_row list" where
  "gauss_jordan [] finished todo = Inr finished"
| "gauss_jordan (k # ks) finished todo =
     (case find_pivot k todo of
        None \<Rightarrow> Inl LinAlgError
      | Some (r, rest) \<Rightarrow>
          (let piv = scale_row (1 / coord6 (fst r) k) r
           in gauss_jordan ks (map (eliminate k piv) finished @ [piv])
                (map (eliminate k piv) rest)))"

text \<open>
  Modelled from the spec: \<open>np.linalg.inv\<close>, a function of numpy, which the notebook
  imports and the repository does not contain: the inverse of a 6 by 6 matrix, and "if \<open>M\<close>
  is singular, matrix inversion fails with a NumericalError" (numpy's \<open>LinAlgError\<close>). In
  exact arithmetic, by Gauss-Jordan elimination on \<open>[M | I]\<close>, which fails when a column
  has no nonzero pivot left.
\<close>

definition linalg_inv :: "mat6 \<Rightarrow> error + mat6" where
  "linalg_inv M =
     (case gauss_jordan [0..<6] [] (zip (rows6 M) (rows6 1)) of
        Inl e \<Rightarrow> Inl e
      | Inr finished \<Rightarrow> Inr (of_rows6 (map snd finished)))"

section \<open>The equations of motion\<close>

text \<open>
  \<open>eomB\<close>, the inner function of \<open>generate_equations_of_motion\<close>: the rigid body
  equations of motion in the body frame.
\<close>

definition eomB :: "mat6 \<Rightarrow> vec6 \<Rightarrow> vec6 \<Rightarrow> error + vec6" where
  "eomB M \<nu> \<tau> =
     (let \<nu>1 = lin \<nu>;
          \<nu>2 = ang \<nu>;
          M11 = blk11 M;
          M12 = blk12 M;
          M21 = blk21 M;
          M22 = blk22 M;
          C = Mat6 0 (- hat (mv3 M11 \<nu>1 + mv3 M12 \<nu>2))
                   (- hat (mv3 M11 \<nu>1 + mv3 M12 \<nu>2)) (- hat (mv3 M21 \<nu>1 + mv3 M22 \<nu>2))
      in case linalg_inv M of
           Inl e \<Rightarrow> Inl e
         | Inr Minv \<Rightarrow> Inr (mv6 Minv (\<tau> - mv6 C \<nu>)))"

text \<open>
  \<open>eom\<close>, the function that \<open>generate_equations_of_motion\<close> returns: the equations of
  motion in the fixed frame. The captured \<open>spatial_inertia_body\<close> is its first argument.
\<close>

definition eom :: "mat6 \<Rightarrow> pose \<Rightarrow> vec6 \<Rightarrow> vec6 \<Rightarrow> error + vec6" where
  "eom spatial_inertia_body pose vels forces =
     (case as_rotation_matrix (pose_q pose) of
        Inl e \<Rightarrow> Inl e
      | Inr R \<Rightarrow>
          (let RR = block_diag R R;
               M = RR * spatial_inertia_body * transpose6 RR;
               w = ang vels;
               \<nu> = vels;
               \<tau> = forces
           in case eomB M \<nu> \<tau> of
                Inl e \<Rightarrow> Inl e
              | Inr \<nu>d \<Rightarrow> Inr (\<nu>d + mv6 (block_diag (hat w) (hat w)) vels)))"

definition generate_equations_of_motion :: "mat6 \<Rightarrow> pose \<Rightarrow> vec6 \<Rightarrow> vec6 \<Rightarrow> error + vec6" where
  "generate_equations_of_motion spatial_inertia_body = eom spatial_inertia_body"

section \<open>The discrete equations of motion\<close>

text \<open>
  \<open>discrete_eom\<close>, the function that \<open>generate_discrete_eom\<close> returns. The source writes
  its results into the three arrays passed as \<open>pose_out\<close>, \<open>vels_out\<close> and \<open>accs_out\<close>
  and returns nothing; here the three values written are returned. Every field of
  \<open>pose_out\<close> is assigned. The captured \<open>eom\<close> and timestep are the first two arguments.
\<close>

type_synonym eom_fn = "pose \<Rightarrow> vec6 \<Rightarrow> vec6 \<Rightarrow> error + vec6"

type_synonym discrete_eom_fn = "pose \<Rightarrow> vec6 \<Rightarrow> vec6 \<Rightarrow> error + (pose \<times> vec6 \<times> vec6)"

definition discrete_eom :: "eom_fn \<Rightarrow> real \<Rightarrow> discrete_eom_fn" where
  "discrete_eom eom_fn \<Delta>t pose vels forces =
     (case eom_fn pose vels forces of
        Inl e \<Rightarrow> Inl e
      | Inr accs_out \<Rightarrow>
          (let vels_out = vels + smul6 \<Delta>t accs_out;
               pose_out = \<lparr>pose_t = pose_t pose + \<Delta>t,
                           pose_p = pose_p pose + smul3 \<Delta>t (lin vels_out),
                           pose_q = qmul (from_rotation_vector (smul3 \<Delta>t (ang vels_out)))
                                      (pose_q pose)\<rparr>
           in Inr (pose_out, vels_out, accs_out)))"

definition generate_discrete_eom :: "eom_fn \<Rightarrow> real \<Rightarrow> discrete_eom_fn" where
  "generate_discrete_eom eom_fn \<Delta>t = discrete_eom eom_fn \<Delta>t"

section \<open>Applying the discrete equations of motion\<close>

text \<open>An entry of \<open>np.zeros(..., dtype=pose_dtype)\<close>.\<close>

definition zero_pose :: pose where
  "zero_pose = \<lparr>pose_t = 0, pose_p = 0, pose_q = Quaternion 0 0 0 0\<rparr>"

text \<open>
  The body of the \<open>for n in range(n_steps)\<close> loop of \<open>apply_discrete_eom\<close>, over the
  three arrays \<open>poses\<close>, \<open>vels\<close> and \<open>accs\<close>. The arguments of the call are
  \<open>poses[n]\<close>, \<open>vels[n]\<close>, \<open>forces[n]\<close>, \<open>poses[n + 1]\<close>, \<open>vels[n + 1]\<close> and \<open>accs[n]\<close>,
  and numpy raises \<open>IndexError\<close> for an index that is out of bounds, before the call.
  An exception ends the loop and the function.
\<close>

type_synonym traces = "pose list \<times> vec6 list \<times> vec6 list"

fun apply_steps :: "discrete_eom_fn \<Rightarrow> vec6 list \<Rightarrow> nat list \<Rightarrow> traces \<Rightarrow> error + traces" where
  "apply_steps discrete_eom_fn forces [] (poses, vels, accs) = Inr (poses, vels, accs)"
| "apply_steps discrete_eom_fn forces (n # ns) (poses, vels, accs) =
     (if n < length poses \<and> n < length vels \<and> n < length forces
         \<and> n + 1 < length poses \<and> n + 1 < length vels \<and> n < length accs
      then (case discrete_eom_fn (poses ! n) (vels ! n) (forces ! n) of
              Inl e \<Rightarrow> Inl e
            | Inr (pose_out, vels_out, accs_out) \<Rightarrow>
                apply_steps discrete_eom_fn forces ns
                  (poses[n + 1 := pose_out], vels[n + 1 := vels_out], accs[n := accs_out]))
      else Inl IndexError)"

text \<open>
  \<open>apply_discrete_eom\<close>. \<open>n_steps\<close> is a Python integer; \<open>np.zeros\<close> raises
  \<open>ValueError\<close> for a negative dimension, which \<open>(n_steps, 6)\<close> has whenever
  \<open>n_steps\<close> is negative. \<open>forces\<close> is the array of the rows \<open>forces[0]\<close>, \<open>forces[1]\<close>, ...
\<close>

definition apply_discrete_eom ::
    "pose \<Rightarrow> vec6 \<Rightarrow> vec6 list \<Rightarrow> discrete_eom_fn \<Rightarrow> int \<Rightarrow> error + traces" where
  "apply_discrete_eom pose0 vels0 forces discrete_eom_fn n_steps =
     (if n_steps < 0 then Inl ValueError
      else
        (let poses = replicate (nat n_steps + 1) zero_pose;
             vels = replicate (nat n_steps + 1) (0 :: vec6);
             accs = replicate (nat n_steps) (0 :: vec6);
             poses = poses[0 := pose0];
             vels = vels[0 := vels0]
         in apply_steps discrete_eom_fn forces [0..<nat n_steps] (poses, vels, accs)))"

text \<open>
  The same computation without the arrays, for the proofs: run the discrete equations of
  motion through a list of forces from a pose and a velocity, and collect the poses,
  the velocities and the accelerations.
\<close>

fun run_steps :: "discrete_eom_fn \<Rightarrow> vec6 list \<Rightarrow> pose \<Rightarrow> vec6 \<Rightarrow> error + traces" where
  "run_steps d [] p v = Inr ([p], [v], [])"
| "run_steps d (f # fs) p v =
     (case d p v f of
        Inl e \<Rightarrow> Inl e
      | Inr (p', v', a) \<Rightarrow>
          (case run_steps d fs p' v' of
             Inl e \<Rightarrow> Inl e
           | Inr (ps, vs, as) \<Rightarrow> Inr (p # ps, v # vs, a # as)))"

section \<open>Notions for the proofs\<close>

text \<open>The unit vectors, and the product \<open>e @ M\<close> of a row vector and a matrix.\<close>

fun unit3 :: "nat \<Rightarrow> vec3" where
  "unit3 i = Vec3 (if i = 0 then 1 else 0) (if i = 1 then 1 else 0) (if i = 2 then 1 else 0)"

fun unit6 :: "nat \<Rightarrow> vec6" where
  "unit6 i = (if i < 3 then Vec6 (unit3 i) 0 else Vec6 0 (unit3 (i - 3)))"

fun vm6 :: "vec6 \<Rightarrow> mat6 \<Rightarrow> vec6" where
  "vm6 (Vec6 a b) (Mat6 A B C D) = Vec6 (vm3 a A + vm3 b C) (vm3 a B + vm3 b D)"

text \<open>
  What the elimination keeps true of the rows \<open>(a, e)\<close> of the augmented array: \<open>a\<close> is
  the combination \<open>e @ M\<close> of the rows of \<open>M\<close>; the first \<open>k\<close> columns are those of the
  identity on the finished rows and zero on the others; a vector orthogonal to every \<open>a\<close>
  is in the kernel of \<open>M\<close>; only the zero vector is orthogonal to every \<open>e\<close>.
\<close>

definition rows_of :: "mat6 \<Rightarrow> aug_row list \<Rightarrow> bool" where
  "rows_of M rows \<longleftrightarrow> (\<forall>r\<in>set rows. fst r = vm6 (snd r) M)"

definition echelon :: "nat \<Rightarrow> aug_row list \<Rightarrow> aug_row list \<Rightarrow> bool" where
  "echelon k finished todo \<longleftrightarrow>
     length finished = k \<and> length todo + k = 6 \<and>
     (\<forall>i<k. \<forall>j<k. coord6 (fst (finished ! i)) j = (if i = j then 1 else 0)) \<and>
     (\<forall>r\<in>set todo. \<forall>j<k. coord6 (fst r) j = 0)"

definition kernel_kept :: "mat6 \<Rightarrow> aug_row list \<Rightarrow> bool" where
  "kernel_kept M rows \<longleftrightarrow> (\<forall>x. (\<forall>r\<in>set rows. dot6 (fst r) x = 0) \<longrightarrow> mv6 M x = 0)"

definition independent :: "aug_row list \<Rightarrow> bool" where
  "independent rows \<longleftrightarrow> (\<forall>y. (\<forall>r\<in>set rows. dot6 (snd r) y = 0) \<longrightarrow> y = 0)"

definition gj_inv :: "mat6 \<Rightarrow> nat \<Rightarrow> aug_row list \<Rightarrow> aug_row list \<Rightarrow> bool" where
  "gj_inv M k finished todo \<longleftrightarrow>
     rows_of M (finished @ todo) \<and> echelon k finished todo \<and>
     kernel_kept M (finished @ todo) \<and> independent (finished @ todo)"

text \<open>A matrix times a number, and the rotation matrix of a quaternion before the division
  by the squared norm.\<close>

fun smat3 :: "real \<Rightarrow> mat3 \<Rightarrow> mat3" where
  "smat3 c (Mat3 r0 r1 r2) = Mat3 (smul3 c r0) (smul3 c r1) (smul3 c r2)"

fun rotation_numerator :: "quaternion \<Rightarrow> mat3" where
  "rotation_numerator (Quaternion w x y z) =
     (let n = w * w + x * x + y * y + z * z in
      Mat3 (Vec3 (n - 2 * (y * y + z * z)) (2 * (x * y - z * w)) (2 * (x * z + y * w)))
           (Vec3 (2 * (x * y + z * w)) (n - 2 * (x * x + z * z)) (2 * (y * z - x * w)))
           (Vec3 (2 * (x * z - y * w)) (2 * (y * z + x * w)) (n - 2 * (x * x + y * y))))"

text \<open>
  The two matrices that the specification names in the equations of motion: the spatial
  inertia in the fixed frame, \<open>blockdiag(R, R) M\<^sub>b\<^sub>o\<^sub>d\<^sub>y blockdiag(R, R)\<^sup>T\<close>, and
  \<open>C(\<nu>) = [[0, - hat(M\<^sub>1\<^sub>1 \<nu>\<^sub>1 + M\<^sub>1\<^sub>2 \<nu>\<^sub>2)],
     [- hat(M\<^sub>1\<^sub>1 \<nu>\<^sub>1 + M\<^sub>1\<^sub>2 \<nu>\<^sub>2), - hat(M\<^sub>2\<^sub>1 \<nu>\<^sub>1 + M\<^sub>2\<^sub>2 \<nu>\<^sub>2)]]\<close>.
\<close>

definition fixed_frame_inertia :: "mat3 \<Rightarrow> mat6 \<Rightarrow> mat6" where
  "fixed_frame_inertia R M_body = block_diag R R * M_body * transpose6 (block_diag R R)"

definition coriolis :: "mat6 \<Rightarrow> vec6 \<Rightarrow> mat6" where
  "coriolis M \<nu> =
     Mat6 0 (- hat (mv3 (blk11 M) (lin \<nu>) + mv3 (blk12 M) (ang \<nu>)))
       (- hat (mv3 (blk11 M) (lin \<nu>) + mv3 (blk12 M) (ang \<nu>)))
       (- hat (mv3 (blk21 M) (lin \<nu>) + mv3 (blk22 M) (ang \<nu>)))"

section \<open>Vector and matrix algebra\<close>

lemma smul3_simps [simp]:
  "smul3 c (u + v) = smul3 c u + smul3 c v"
  "smul3 c (u - v) = smul3 c u - smul3 c v"
  "smul3 c (- u) = - smul3 c u"
  "smul3 c 0 = 0"
  "smul3 0 u = 0"
  "smul3 1 u = u"
  "smul3 c (smul3 c' u) = smul3 (c * c') u"
  by (cases u, cases v, simp add: algebra_simps zero_vec3_def)+

lemma dot3_simps [simp]:
  "dot3 (u + v) w = dot3 u w + dot3 v w"
  "dot3 (u - v) w = dot3 u w - dot3 v w"
  "dot3 (- u) w = - dot3 u w"
  "dot3 w (u + v) = dot3 w u + dot3 w v"
  "dot3 w (u - v) = dot3 w u - dot3 w v"
  "dot3 w (- u) = - dot3 w u"
  "dot3 0 w = 0"
  "dot3 w 0 = 0"
  "dot3 (smul3 c u) w = c * dot3 u w"
  "dot3 w (smul3 c u) = c * dot3 w u"
  by (cases u, cases v, cases w, simp add: algebra_simps zero_vec3_def)+

lemma mv3_simps [simp]:
  "mv3 A (u + v) = mv3 A u + mv3 A v"
  "mv3 A (u - v) = mv3 A u - mv3 A v"
  "mv3 A (- u) = - mv3 A u"
  "mv3 A (smul3 c u) = smul3 c (mv3 A u)"
  by (cases A; simp)+

lemma mv3_zero_right [simp]: "mv3 A 0 = 0"
proof -
  have "mv3 A (0 - 0) = 0" by (simp only: mv3_simps) simp
  then show ?thesis by simp
qed

lemma mv3_mat_simps [simp]:
  "mv3 (A + B) u = mv3 A u + mv3 B u"
  "mv3 (A - B) u = mv3 A u - mv3 B u"
  "mv3 (- A) u = - mv3 A u"
  by (cases A; cases B; simp)+

lemma mv3_zero_left [simp]: "mv3 0 u = 0"
proof -
  have "mv3 (0 - 0) u = 0" by (simp only: mv3_mat_simps) simp
  then show ?thesis by simp
qed

lemma mv3_one [simp]: "mv3 1 u = u"
  by (cases u) (simp add: one_mat3_def)

lemma mat3_exhaust:
  obtains a0 a1 a2 a3 a4 a5 a6 a7 a8
  where "A = Mat3 (Vec3 a0 a1 a2) (Vec3 a3 a4 a5) (Vec3 a6 a7 a8)"
  by (metis mat3.exhaust vec3.exhaust)

lemma mv3_mult [simp]: "mv3 (A * B) u = mv3 A (mv3 B u)"
proof -
  obtain a0 a1 a2 a3 a4 a5 a6 a7 a8
    where A: "A = Mat3 (Vec3 a0 a1 a2) (Vec3 a3 a4 a5) (Vec3 a6 a7 a8)"
    by (rule mat3_exhaust)
  obtain b0 b1 b2 b3 b4 b5 b6 b7 b8
    where B: "B = Mat3 (Vec3 b0 b1 b2) (Vec3 b3 b4 b5) (Vec3 b6 b7 b8)"
    by (rule mat3_exhaust)
  show ?thesis unfolding A B by (cases u) (simp add: algebra_simps)
qed

lemma dot3_mv3_transpose: "dot3 (mv3 A u) v = dot3 u (mv3 (transpose3 A) v)"
proof -
  obtain a0 a1 a2 a3 a4 a5 a6 a7 a8
    where A: "A = Mat3 (Vec3 a0 a1 a2) (Vec3 a3 a4 a5) (Vec3 a6 a7 a8)"
    by (rule mat3_exhaust)
  show ?thesis unfolding A by (cases u, cases v) (simp add: algebra_simps)
qed

lemma hat_simps [simp]:
  "hat (- r) = - hat r"
  "transpose3 (hat r) = - hat r"
  by (cases r; simp)+

lemma hat_zero [simp]: "hat 0 = 0"
  by (simp add: zero_mat3_def zero_vec3_def)

lemma dot3_hat: "dot3 (mv3 (hat r) u) v = - dot3 u (mv3 (hat r) v)"
  by (simp add: dot3_mv3_transpose)

lemma smul3_add_left: "smul3 (c + c') u = smul3 c u + smul3 c' u"
  by (cases u) (simp add: algebra_simps)

lemma smul6_simps [simp]:
  "smul6 c (u + v) = smul6 c u + smul6 c v"
  "smul6 c (u - v) = smul6 c u - smul6 c v"
  "smul6 c (- u) = - smul6 c u"
  "smul6 c (smul6 c' u) = smul6 (c * c') u"
  by (cases u; cases v; simp)+

lemma smul6_zero [simp]: "smul6 c 0 = 0" "smul6 0 u = 0"
  by (cases u; simp add: zero_vec6_def)+

lemma smul6_one [simp]: "smul6 1 u = u"
  by (cases u) simp

lemma dot6_simps [simp]:
  "dot6 (u + v) w = dot6 u w + dot6 v w"
  "dot6 (u - v) w = dot6 u w - dot6 v w"
  "dot6 (- u) w = - dot6 u w"
  "dot6 w (u + v) = dot6 w u + dot6 w v"
  "dot6 w (u - v) = dot6 w u - dot6 w v"
  "dot6 w (- u) = - dot6 w u"
  "dot6 (smul6 c u) w = c * dot6 u w"
  "dot6 w (smul6 c u) = c * dot6 w u"
  by (cases u; cases v; cases w; simp add: algebra_simps)+

lemma dot6_zero [simp]: "dot6 0 w = 0" "dot6 w 0 = 0"
  by (cases w; simp add: zero_vec6_def)+

lemma mv6_simps [simp]:
  "mv6 A (u + v) = mv6 A u + mv6 A v"
  "mv6 A (u - v) = mv6 A u - mv6 A v"
  "mv6 A (- u) = - mv6 A u"
  "mv6 A (smul6 c u) = smul6 c (mv6 A u)"
  by (cases A; cases u; cases v; simp)+

lemma mv6_mat_simps [simp]:
  "mv6 (A + B) u = mv6 A u + mv6 B u"
  "mv6 (A - B) u = mv6 A u - mv6 B u"
  "mv6 (- A) u = - mv6 A u"
  "mv6 (A * B) u = mv6 A (mv6 B u)"
  by (cases A; cases B; cases u; simp)+

lemma mv6_zero [simp]: "mv6 A 0 = 0" "mv6 0 u = 0"
  by (cases A; cases u; simp add: zero_vec6_def zero_mat6_def)+

lemma mv6_one [simp]: "mv6 1 u = u"
  by (cases u) (simp add: one_mat6_def)

lemma less6: "i < 6 \<longleftrightarrow> i = 0 \<or> i = 1 \<or> i = 2 \<or> i = 3 \<or> i = 4 \<or> i = (5::nat)"
  by auto

lemma upt6: "[0..<6] = [0, 1, 2, 3, 4, 5]"
  by (simp add: upt_rec)

lemma coord3_simps [simp]:
  "coord3 (u + v) i = coord3 u i + coord3 v i"
  "coord3 (u - v) i = coord3 u i - coord3 v i"
  "coord3 (smul3 c u) i = c * coord3 u i"
  by (cases u; cases v; simp)+

lemma coord3_zero [simp]: "coord3 0 i = 0"
  by (simp add: zero_vec3_def)

lemma coord6_simps [simp]:
  "coord6 (u + v) i = coord6 u i + coord6 v i"
  "coord6 (u - v) i = coord6 u i - coord6 v i"
  "coord6 (smul6 c u) i = c * coord6 u i"
  by (cases u; cases v; simp)+

lemma coord6_zero [simp]: "coord6 0 i = 0"
  by (simp add: zero_vec6_def)

lemma vec6_eqI: "(\<And>i. i < 6 \<Longrightarrow> coord6 u i = coord6 v i) \<Longrightarrow> u = v"
proof -
  assume h: "\<And>i. i < 6 \<Longrightarrow> coord6 u i = coord6 v i"
  obtain a b c d e f where u: "u = Vec6 (Vec3 a b c) (Vec3 d e f)"
    by (metis vec6.exhaust vec3.exhaust)
  obtain a' b' c' d' e' f' where v: "v = Vec6 (Vec3 a' b' c') (Vec3 d' e' f')"
    by (metis vec6.exhaust vec3.exhaust)
  from h [of 0] h [of 1] h [of 2] h [of 3] h [of 4] h [of 5]
  show ?thesis unfolding u v by simp
qed

lemma coord6_unit6: "i < 6 \<Longrightarrow> j < 6 \<Longrightarrow> coord6 (unit6 i) j = (if i = j then 1 else 0)"
  by (auto simp add: less6 zero_vec3_def)

lemma dot6_unit6: "i < 6 \<Longrightarrow> dot6 u (unit6 i) = coord6 u i" "i < 6 \<Longrightarrow> dot6 (unit6 i) u = coord6 u i"
proof -
  obtain a b c d e f where u: "u = Vec6 (Vec3 a b c) (Vec3 d e f)"
    by (metis vec6.exhaust vec3.exhaust)
  show "i < 6 \<Longrightarrow> dot6 u (unit6 i) = coord6 u i" unfolding u
    by (auto simp add: less6 zero_vec3_def)
  show "i < 6 \<Longrightarrow> dot6 (unit6 i) u = coord6 u i" unfolding u
    by (auto simp add: less6 zero_vec3_def)
qed

lemma length_rows6 [simp]: "length (rows6 M) = 6"
proof -
  obtain A B C D where M: "M = Mat6 A B C D" by (cases M)
  show ?thesis unfolding M by (cases A; cases B; cases C; cases D; simp)
qed

lemma rows6_inject: "rows6 M = rows6 N \<Longrightarrow> M = N"
proof -
  obtain A B C D where M: "M = Mat6 A B C D" by (cases M)
  obtain A' B' C' D' where N: "N = Mat6 A' B' C' D'" by (cases N)
  show "rows6 M = rows6 N \<Longrightarrow> M = N" unfolding M N
    by (cases A; cases B; cases C; cases D; cases A'; cases B'; cases C'; cases D'; simp)
qed

lemma length6E:
  assumes "length rs = 6"
  obtains r0 r1 r2 r3 r4 r5 where "rs = [r0, r1, r2, r3, r4, r5]"
proof -
  from assms have "length rs = Suc (Suc (Suc (Suc (Suc (Suc 0)))))" by simp
  then show ?thesis using that by (auto simp add: length_Suc_conv)
qed

lemma rows6_of_rows6: "length rs = 6 \<Longrightarrow> rows6 (of_rows6 rs) = rs"
proof -
  assume "length rs = 6"
  then obtain r0 r1 r2 r3 r4 r5 where rs: "rs = [r0, r1, r2, r3, r4, r5]" by (rule length6E)
  show ?thesis unfolding rs by (cases r0; cases r1; cases r2; cases r3; cases r4; cases r5; simp)
qed

lemma rows6_one: "rows6 1 = map unit6 [0..<6]"
  by (simp add: upt6 one_mat6_def one_mat3_def zero_mat3_def zero_vec3_def)

lemma vm3_simps [simp]:
  "vm3 (u + v) A = vm3 u A + vm3 v A"
  "vm3 (u - v) A = vm3 u A - vm3 v A"
  "vm3 (smul3 c u) A = smul3 c (vm3 u A)"
proof -
  obtain r0 r1 r2 where A: "A = Mat3 r0 r1 r2" by (cases A)
  obtain a b c' where u: "u = Vec3 a b c'" by (cases u)
  obtain a' b' c'' where v: "v = Vec3 a' b' c''" by (cases v)
  show "vm3 (u + v) A = vm3 u A + vm3 v A" unfolding A u v
    by (cases r0; cases r1; cases r2; simp add: algebra_simps)
  show "vm3 (u - v) A = vm3 u A - vm3 v A" unfolding A u v
    by (cases r0; cases r1; cases r2; simp add: algebra_simps)
  show "vm3 (smul3 c u) A = smul3 c (vm3 u A)" unfolding A u v
    by (cases r0; cases r1; cases r2; simp add: algebra_simps)
qed

lemma vm6_simps [simp]:
  "vm6 (u + v) M = vm6 u M + vm6 v M"
  "vm6 (u - v) M = vm6 u M - vm6 v M"
  "vm6 (smul6 c u) M = smul6 c (vm6 u M)"
  by (cases u; cases v; cases M; simp)+

lemma rows6_times: "rows6 (M * N) = map (\<lambda>e. vm6 e N) (rows6 M)"
proof -
  obtain A B C D where M: "M = Mat6 A B C D" by (cases M)
  obtain A' B' C' D' where N: "N = Mat6 A' B' C' D'" by (cases N)
  show ?thesis unfolding M N
    by (cases A; cases B; cases C; cases D) simp
qed

lemma vm6_unit6: "i < 6 \<Longrightarrow> vm6 (unit6 i) M = rows6 M ! i"
proof -
  assume i: "i < 6"
  obtain A B C D where M: "M = Mat6 A B C D" by (cases M)
  show ?thesis unfolding M using i
    by (cases A; cases B; cases C; cases D)
      (auto simp add: less6 zero_vec3_def)
qed

lemma coord6_mv6: "i < 6 \<Longrightarrow> coord6 (mv6 M x) i = dot6 (rows6 M ! i) x"
proof -
  assume i: "i < 6"
  obtain A B C D where M: "M = Mat6 A B C D" by (cases M)
  show ?thesis unfolding M using i
    by (cases A; cases B; cases C; cases D; cases x)
      (auto simp add: less6)
qed

section \<open>The point transform\<close>

text \<open>
  C4. The transformed matrix gives, for the linear velocity of \<open>P\<close> and the angular
  velocity, the quadratic form that the original matrix gives for the linear velocity of
  \<open>Q\<close>, \<open>v\<^sub>Q = v\<^sub>P - hat(r) \<omega>\<close>, and the same angular velocity. The matrix is any
  6 by 6 matrix: nothing is assumed of its symmetry, definiteness or invertibility.
\<close>

theorem point_transform_preserves_quadratic_form:
  "quadratic_form (transform_spatial_inertia A\<^sub>Q r) v\<^sub>P \<omega> =
   quadratic_form A\<^sub>Q (velocity_at_Q r v\<^sub>P \<omega>) \<omega>"
  by (cases A\<^sub>Q)
    (simp add: quadratic_form_def transform_spatial_inertia_def velocity_at_Q_def
      dot3_hat algebra_simps)

text \<open>
  C5. Transforming with \<open>r\<close> and then with \<open>- r\<close> gives the matrix back, for every
  6 by 6 matrix and every displacement (in exact arithmetic).
\<close>

theorem point_transform_round_trip:
  "transform_spatial_inertia (transform_spatial_inertia A r) (- r) = A"
  by (cases A) (simp add: transform_spatial_inertia_def algebra_simps)

section \<open>The traces of \<open>apply_discrete_eom\<close>\<close>

lemma apply_steps_run_steps:
  "length P = i \<Longrightarrow> length V = i \<Longrightarrow> length A = i \<Longrightarrow> i \<le> length fs \<Longrightarrow>
   apply_steps d fs [i..<i + m]
     (P @ p # replicate m z, V @ v # replicate m z', A @ replicate m z'') =
   (if i + m \<le> length fs
    then (case run_steps d (take m (drop i fs)) p v of
            Inl e \<Rightarrow> Inl e
          | Inr (ps, vs, as) \<Rightarrow> Inr (P @ ps, V @ vs, A @ as))
    else (case run_steps d (drop i fs) p v of
            Inl e \<Rightarrow> Inl e
          | Inr tr \<Rightarrow> Inl IndexError))"
proof (induction m arbitrary: i P V A p v)
  case 0
  then show ?case by simp
next
  case (Suc m)
  have upt: "[i..<i + Suc m] = i # [Suc i..<Suc i + m]"
    by (simp add: upt_conv_Cons)
  show ?case
  proof (cases "i < length fs")
    case False
    then show ?thesis unfolding upt using Suc.prems by simp
  next
    case True
    then have dr: "drop i fs = fs ! i # drop (Suc i) fs"
      by (simp add: Cons_nth_drop_Suc)
    show ?thesis
    proof (cases "d p v (fs ! i)")
      case (Inl e)
      then show ?thesis unfolding upt using Suc.prems True by (simp add: dr nth_append)
    next
      case (Inr r)
      obtain p' v' a where r: "r = (p', v', a)" by (cases r)
      have st: "apply_steps d fs [i..<i + Suc m]
          (P @ p # replicate (Suc m) z, V @ v # replicate (Suc m) z',
           A @ replicate (Suc m) z'')
        = apply_steps d fs [Suc i..<Suc i + m]
          ((P @ [p]) @ p' # replicate m z, (V @ [v]) @ v' # replicate m z',
           (A @ [a]) @ replicate m z'')"
        unfolding upt using Suc.prems True Inr r
        by (simp add: nth_append list_update_append)
      have ih: "apply_steps d fs [Suc i..<Suc i + m]
          ((P @ [p]) @ p' # replicate m z, (V @ [v]) @ v' # replicate m z',
           (A @ [a]) @ replicate m z'')
         = (if Suc i + m \<le> length fs
            then (case run_steps d (take m (drop (Suc i) fs)) p' v' of
                    Inl e \<Rightarrow> Inl e
                  | Inr (ps, vs, as) \<Rightarrow> Inr ((P @ [p]) @ ps, (V @ [v]) @ vs, (A @ [a]) @ as))
            else (case run_steps d (drop (Suc i) fs) p' v' of
                    Inl e \<Rightarrow> Inl e
                  | Inr tr \<Rightarrow> Inl IndexError))"
        by (rule Suc.IH) (use Suc.prems True in simp_all)
      show ?thesis unfolding st ih using Inr r
        by (simp add: dr split: sum.splits)
    qed
  qed
qed

text \<open>What \<open>apply_discrete_eom\<close> returns or raises, for every argument.\<close>

lemma apply_discrete_eom_run_steps:
  "apply_discrete_eom pose0 vels0 forces d n_steps =
    (if n_steps < 0 then Inl ValueError
     else if nat n_steps \<le> length forces
       then run_steps d (take (nat n_steps) forces) pose0 vels0
     else (case run_steps d forces pose0 vels0 of
             Inl e \<Rightarrow> Inl e
           | Inr tr \<Rightarrow> Inl IndexError))"
proof (cases "n_steps < 0")
  case True
  then show ?thesis by (simp add: apply_discrete_eom_def)
next
  case False
  have "apply_discrete_eom pose0 vels0 forces d n_steps =
     apply_steps d forces [0..<0 + nat n_steps]
       ([] @ pose0 # replicate (nat n_steps) zero_pose,
        [] @ vels0 # replicate (nat n_steps) 0,
        [] @ replicate (nat n_steps) 0)"
    using False by (simp add: apply_discrete_eom_def)
  also have "\<dots> = (if 0 + nat n_steps \<le> length forces
    then (case run_steps d (take (nat n_steps) (drop 0 forces)) pose0 vels0 of
            Inl e \<Rightarrow> Inl e
          | Inr (ps, vs, as) \<Rightarrow> Inr ([] @ ps, [] @ vs, [] @ as))
    else (case run_steps d (drop 0 forces) pose0 vels0 of
            Inl e \<Rightarrow> Inl e
          | Inr tr \<Rightarrow> Inl IndexError))"
    by (rule apply_steps_run_steps) simp_all
  finally show ?thesis using False by (simp split: sum.splits)
qed

lemma run_steps_Inr:
  "run_steps d fs p v = Inr (ps, vs, as) \<Longrightarrow>
   length ps = length fs + 1 \<and> length vs = length fs + 1 \<and> length as = length fs \<and>
   ps ! 0 = p \<and> vs ! 0 = v \<and>
   (\<forall>n<length fs. d (ps ! n) (vs ! n) (fs ! n) = Inr (ps ! (n + 1), vs ! (n + 1), as ! n))"
proof (induction fs arbitrary: p v ps vs as)
  case Nil
  then show ?case by auto
next
  case (Cons f fs)
  from Cons.prems obtain p' v' a ps' vs' as' where
    d: "d p v f = Inr (p', v', a)" and
    s: "run_steps d fs p' v' = Inr (ps', vs', as')" and
    e: "ps = p # ps'" "vs = v # vs'" "as = a # as'"
    by (auto split: sum.splits)
  note ih = Cons.IH [OF s]
  have "d (ps ! n) (vs ! n) ((f # fs) ! n) = Inr (ps ! (n + 1), vs ! (n + 1), as ! n)"
    if "n < length (f # fs)" for n
  proof (cases n)
    case 0
    then show ?thesis using d e ih by simp
  next
    case (Suc k)
    then show ?thesis using that e ih by simp
  qed
  then show ?case using e ih by simp
qed

lemma run_steps_Inl:
  "run_steps d fs p v = Inl e \<Longrightarrow> \<exists>n<length fs. \<exists>p' v'. d p' v' (fs ! n) = Inl e"
proof (induction fs arbitrary: p v)
  case Nil
  then show ?case by simp
next
  case (Cons f fs)
  show ?case
  proof (cases "d p v f")
    case (Inl e')
    then have "d p v ((f # fs) ! 0) = Inl e" using Cons.prems by simp
    then show ?thesis by blast
  next
    case (Inr r)
    obtain p' v' a where r: "r = (p', v', a)" by (cases r)
    have "run_steps d fs p' v' = Inl e"
      using Cons.prems Inr r by (simp split: sum.splits prod.splits)
    then obtain n p'' v'' where "n < length fs" "d p'' v'' (fs ! n) = Inl e"
      using Cons.IH by blast
    then have "Suc n < length (f # fs) \<and> d p'' v'' ((f # fs) ! Suc n) = Inl e" by simp
    then show ?thesis by blast
  qed
qed

text \<open>
  C6. With \<open>n_steps \<ge> 0\<close> and one force for each step, \<open>apply_discrete_eom\<close> returns
  \<open>n_steps + 1\<close> poses, \<open>n_steps + 1\<close> velocities and \<open>n_steps\<close> accelerations; index 0
  holds the initial pose and the initial velocity; and for each step \<open>n\<close> the pose and the
  velocity at index \<open>n + 1\<close> and the acceleration at index \<open>n\<close> are what the discrete
  equations of motion give for the pose and the velocity at index \<open>n\<close> and the force
  \<open>n\<close>. It raises an exception only when the discrete equations of motion raise it at
  one of the steps.
\<close>

theorem apply_discrete_eom_traces:
  assumes "0 \<le> n_steps" and "length forces = nat n_steps"
  shows "case apply_discrete_eom pose0 vels0 forces d n_steps of
           Inr (poses, vels, accs) \<Rightarrow>
             length poses = nat n_steps + 1 \<and> length vels = nat n_steps + 1 \<and>
             length accs = nat n_steps \<and> poses ! 0 = pose0 \<and> vels ! 0 = vels0 \<and>
             (\<forall>n<nat n_steps.
                d (poses ! n) (vels ! n) (forces ! n) =
                  Inr (poses ! (n + 1), vels ! (n + 1), accs ! n))
         | Inl e \<Rightarrow> \<exists>n<nat n_steps. \<exists>p v. d p v (forces ! n) = Inl e"
proof -
  have eq: "apply_discrete_eom pose0 vels0 forces d n_steps = run_steps d forces pose0 vels0"
    using assms by (simp add: apply_discrete_eom_run_steps)
  show ?thesis
  proof (cases "run_steps d forces pose0 vels0")
    case (Inl e)
    then show ?thesis unfolding eq using run_steps_Inl [of d forces pose0 vels0 e] assms(2)
      by simp
  next
    case (Inr tr)
    obtain ps vs as where tr: "tr = (ps, vs, as)" by (cases tr)
    show ?thesis unfolding eq using Inr tr run_steps_Inr [of d forces pose0 vels0 ps vs as] assms(2)
      by simp
  qed
qed

text \<open>
  C9. With \<open>n_steps = 0\<close> the result is the initial pose, the initial velocity and no
  acceleration, whatever the forces and whatever the discrete equations of motion: they
  are not applied, so that nothing they would raise is raised.
\<close>

theorem apply_discrete_eom_zero_steps:
  "apply_discrete_eom pose0 vels0 forces d 0 = Inr ([pose0], [vels0], [])"
  by (simp add: apply_discrete_eom_def)

section \<open>Correctness of the matrix inversion\<close>

lemma find_pivot_Some:
  "find_pivot k rows = Some (r, rest) \<Longrightarrow>
   set rows = insert r (set rest) \<and> coord6 (fst r) k \<noteq> 0 \<and> length rows = Suc (length rest)"
proof (induction rows arbitrary: rest)
  case Nil
  then show ?case by simp
next
  case (Cons a rows)
  show ?case
  proof (cases "coord6 (fst a) k \<noteq> 0")
    case True
    then show ?thesis using Cons.prems by auto
  next
    case False
    then obtain rest' where fp: "find_pivot k rows = Some (r, rest')" and rest: "rest = a # rest'"
      using Cons.prems by (auto split: option.splits)
    from Cons.IH [OF fp] rest show ?thesis by auto
  qed
qed

lemma find_pivot_None:
  "find_pivot k rows = None \<Longrightarrow> \<forall>r\<in>set rows. coord6 (fst r) k = 0"
  by (induction rows) (auto split: if_splits option.splits)

lemma fst_scale_row [simp]: "fst (scale_row c r) = smul6 c (fst r)"
  and snd_scale_row [simp]: "snd (scale_row c r) = smul6 c (snd r)"
  by (cases r; simp)+

lemma fst_eliminate [simp]:
  "fst (eliminate k piv x) = fst x - smul6 (coord6 (fst x) k) (fst piv)"
  and snd_eliminate [simp]:
  "snd (eliminate k piv x) = snd x - smul6 (coord6 (fst x) k) (snd piv)"
  by (cases piv; cases x; simp)+

declare scale_row.simps [simp del] eliminate.simps [simp del]

lemma scale_row_of:
  "fst r = vm6 (snd r) M \<Longrightarrow> fst (scale_row c r) = vm6 (snd (scale_row c r)) M"
  by simp

lemma eliminate_row_of:
  "fst p = vm6 (snd p) M \<Longrightarrow> fst x = vm6 (snd x) M \<Longrightarrow>
   fst (eliminate k p x) = vm6 (snd (eliminate k p x)) M"
  by simp

lemma step_rows_of:
  assumes ro: "rows_of M (finished @ todo)" and todo: "set todo = insert r (set rest)"
  shows "rows_of M ((map (eliminate k (scale_row c r)) finished @ [scale_row c r])
           @ map (eliminate k (scale_row c r)) rest)"
proof -
  let ?p = "scale_row c r"
  from ro todo have old: "\<And>x. x \<in> set finished \<union> insert r (set rest) \<Longrightarrow> fst x = vm6 (snd x) M"
    unfolding rows_of_def by auto
  have p: "fst ?p = vm6 (snd ?p) M"
    by (rule scale_row_of) (rule old, simp)
  have "fst y = vm6 (snd y) M"
    if "y \<in> set ((map (eliminate k ?p) finished @ [?p]) @ map (eliminate k ?p) rest)" for y
  proof -
    from that consider "y = ?p" | x where "x \<in> set finished \<union> set rest" "y = eliminate k ?p x"
      by auto
    then show ?thesis
    proof cases
      case 1
      then show ?thesis using p by simp
    next
      case 2
      have "fst x = vm6 (snd x) M" by (rule old) (use 2 in auto)
      then show ?thesis unfolding 2(2) using p by (rule eliminate_row_of [rotated])
    qed
  qed
  then show ?thesis unfolding rows_of_def by blast
qed

lemma coord6_pivot:
  assumes "coord6 (fst r) k \<noteq> 0"
  shows "coord6 (fst (scale_row (1 / coord6 (fst r) k) r)) k = 1"
  using assms by simp

lemma coord6_pivot_before:
  assumes "coord6 (fst r) j = 0"
  shows "coord6 (fst (scale_row c r)) j = 0"
  using assms by simp

lemma coord6_eliminate_before:
  assumes "coord6 (fst p) j = 0"
  shows "coord6 (fst (eliminate k p x)) j = coord6 (fst x) j"
  using assms by simp

lemma coord6_eliminate_at:
  assumes "coord6 (fst p) k = 1"
  shows "coord6 (fst (eliminate k p x)) k = 0"
  using assms by simp

lemma step_echelon:
  assumes ech: "echelon k finished todo"
    and todo: "set todo = insert r (set rest)" "length todo = Suc (length rest)"
    and piv: "coord6 (fst r) k \<noteq> 0"
  shows "echelon (Suc k) (map (eliminate k (scale_row (1 / coord6 (fst r) k) r)) finished
            @ [scale_row (1 / coord6 (fst r) k) r])
           (map (eliminate k (scale_row (1 / coord6 (fst r) k) r)) rest)"
proof -
  define p where "p = scale_row (1 / coord6 (fst r) k) r"
  define fin where "fin = map (eliminate k p) finished @ [p]"
  from ech have len: "length finished = k" "length todo + k = 6"
    and old_fin: "\<And>i j. i < k \<Longrightarrow> j < k \<Longrightarrow>
        coord6 (fst (finished ! i)) j = (if i = j then 1 else 0)"
    and old_todo: "\<And>x j. x \<in> set todo \<Longrightarrow> j < k \<Longrightarrow> coord6 (fst x) j = 0"
    unfolding echelon_def by auto
  have pk: "coord6 (fst p) k = 1"
    unfolding p_def using piv by (rule coord6_pivot)
  have pj: "coord6 (fst p) j = 0" if "j < k" for j
    unfolding p_def by (rule coord6_pivot_before) (rule old_todo, use todo that in simp_all)
  have f: "coord6 (fst (fin ! i)) j = (if i = j then 1 else 0)"
    if i: "i < Suc k" and j: "j < Suc k" for i j
  proof (cases "i < k")
    case True
    then have nth: "fin ! i = eliminate k p (finished ! i)"
      unfolding fin_def using len by (simp add: nth_append)
    show ?thesis
    proof (cases "j = k")
      case True
      then show ?thesis unfolding nth using \<open>i < k\<close> coord6_eliminate_at [OF pk] by simp
    next
      case False
      then have "j < k" using j by simp
      then show ?thesis unfolding nth
        using coord6_eliminate_before [OF pj] old_fin [OF True] by simp
    qed
  next
    case False
    then have ik: "i = k" using i by simp
    then have nth: "fin ! i = p" unfolding fin_def using len by (simp add: nth_append)
    show ?thesis
    proof (cases "j = k")
      case True
      then show ?thesis unfolding nth using ik pk by simp
    next
      case False
      then have "j < k" using j by simp
      then show ?thesis unfolding nth using ik pj by simp
    qed
  qed
  have t: "coord6 (fst x) j = 0"
    if x: "x \<in> set (map (eliminate k p) rest)" and j: "j < Suc k" for x j
  proof -
    from x obtain y where y: "y \<in> set rest" "x = eliminate k p y" by auto
    then have yt: "y \<in> set todo" using todo by simp
    show ?thesis
    proof (cases "j = k")
      case True
      then show ?thesis unfolding y(2) using coord6_eliminate_at [OF pk] by simp
    next
      case False
      then have "j < k" using j by simp
      then show ?thesis unfolding y(2)
        using coord6_eliminate_before [OF pj] old_todo [OF yt] by simp
    qed
  qed
  have "echelon (Suc k) fin (map (eliminate k p) rest)"
    unfolding echelon_def
  proof (intro conjI allI impI ballI)
    show "length fin = Suc k" unfolding fin_def using len by simp
    show "length (map (eliminate k p) rest) + Suc k = 6" using len todo by simp
  qed (use f t in blast)+
  then show ?thesis unfolding fin_def p_def .
qed

lemma step_dot_fst:
  assumes c: "c \<noteq> 0"
    and new: "\<forall>y\<in>set ((map (eliminate k (scale_row (1 / c) r)) finished @ [scale_row (1 / c) r])
                @ map (eliminate k (scale_row (1 / c) r)) rest). dot6 (fst y) x = 0"
    and old: "z \<in> set finished \<union> insert r (set rest)"
  shows "dot6 (fst z) x = 0"
proof -
  define p where "p = scale_row (1 / c) r"
  have "dot6 (fst p) x = 0" using new unfolding p_def by simp
  then have p0: "dot6 (fst r) x = 0" unfolding p_def using c by simp
  show ?thesis
  proof (cases "z = r")
    case True
    then show ?thesis using p0 by simp
  next
    case False
    then have "eliminate k p z
       \<in> set ((map (eliminate k p) finished @ [p]) @ map (eliminate k p) rest)"
      using old by auto
    then have "dot6 (fst (eliminate k p z)) x = 0" using new unfolding p_def by blast
    then show ?thesis using p0 unfolding p_def by simp
  qed
qed

lemma step_dot_snd:
  assumes c: "c \<noteq> 0"
    and new: "\<forall>y\<in>set ((map (eliminate k (scale_row (1 / c) r)) finished @ [scale_row (1 / c) r])
                @ map (eliminate k (scale_row (1 / c) r)) rest). dot6 (snd y) x = 0"
    and old: "z \<in> set finished \<union> insert r (set rest)"
  shows "dot6 (snd z) x = 0"
proof -
  define p where "p = scale_row (1 / c) r"
  have "dot6 (snd p) x = 0" using new unfolding p_def by simp
  then have p0: "dot6 (snd r) x = 0" unfolding p_def using c by simp
  show ?thesis
  proof (cases "z = r")
    case True
    then show ?thesis using p0 by simp
  next
    case False
    then have "eliminate k p z
       \<in> set ((map (eliminate k p) finished @ [p]) @ map (eliminate k p) rest)"
      using old by auto
    then have "dot6 (snd (eliminate k p z)) x = 0" using new unfolding p_def by blast
    then show ?thesis using p0 unfolding p_def by simp
  qed
qed

lemma step_kernel_kept:
  assumes "kernel_kept M (finished @ todo)" and "set todo = insert r (set rest)"
    and "c \<noteq> 0"
  shows "kernel_kept M ((map (eliminate k (scale_row (1 / c) r)) finished @ [scale_row (1 / c) r])
           @ map (eliminate k (scale_row (1 / c) r)) rest)"
  unfolding kernel_kept_def
proof (intro allI impI)
  fix x
  assume new: "\<forall>y\<in>set ((map (eliminate k (scale_row (1 / c) r)) finished @ [scale_row (1 / c) r])
                @ map (eliminate k (scale_row (1 / c) r)) rest). dot6 (fst y) x = 0"
  have "\<forall>z\<in>set (finished @ todo). dot6 (fst z) x = 0"
    using step_dot_fst [OF assms(3) new] assms(2) by simp
  then show "mv6 M x = 0" using assms(1) unfolding kernel_kept_def by blast
qed

lemma step_independent:
  assumes "independent (finished @ todo)" and "set todo = insert r (set rest)"
    and "c \<noteq> 0"
  shows "independent ((map (eliminate k (scale_row (1 / c) r)) finished @ [scale_row (1 / c) r])
           @ map (eliminate k (scale_row (1 / c) r)) rest)"
  unfolding independent_def
proof (intro allI impI)
  fix x
  assume new: "\<forall>y\<in>set ((map (eliminate k (scale_row (1 / c) r)) finished @ [scale_row (1 / c) r])
                @ map (eliminate k (scale_row (1 / c) r)) rest). dot6 (snd y) x = 0"
  have "\<forall>z\<in>set (finished @ todo). dot6 (snd z) x = 0"
    using step_dot_snd [OF assms(3) new] assms(2) by simp
  then show "x = 0" using assms(1) unfolding independent_def by blast
qed

lemma step_gj_inv:
  assumes "gj_inv M k finished todo" and "find_pivot k todo = Some (r, rest)"
  shows "gj_inv M (Suc k)
           (map (eliminate k (scale_row (1 / coord6 (fst r) k) r)) finished
              @ [scale_row (1 / coord6 (fst r) k) r])
           (map (eliminate k (scale_row (1 / coord6 (fst r) k) r)) rest)"
proof -
  from find_pivot_Some [OF assms(2)]
  have s: "set todo = insert r (set rest)" and c: "coord6 (fst r) k \<noteq> 0"
    and l: "length todo = Suc (length rest)" by simp_all
  from assms(1) have a: "rows_of M (finished @ todo)" "echelon k finished todo"
    "kernel_kept M (finished @ todo)" "independent (finished @ todo)"
    unfolding gj_inv_def by simp_all
  show ?thesis unfolding gj_inv_def
    using step_rows_of [OF a(1) s] step_echelon [OF a(2) s l c]
      step_kernel_kept [OF a(3) s c] step_independent [OF a(4) s c]
    by blast
qed

lemma dot6_sum: "dot6 a (\<Sum>i<(k::nat). f i) = (\<Sum>i<k. dot6 a (f i))"
  by (induction k) simp_all

lemma coord6_sum: "coord6 (\<Sum>i<(k::nat). f i) j = (\<Sum>i<k. coord6 (f i) j)"
  by (induction k) simp_all

lemma no_pivot_kernel:
  assumes ech: "echelon k finished todo" and k: "k < 6"
    and none: "\<forall>r\<in>set todo. coord6 (fst r) k = 0"
  shows "\<exists>x. x \<noteq> 0 \<and> (\<forall>r\<in>set (finished @ todo). dot6 (fst r) x = 0)"
proof -
  define x where
    "x = unit6 k - (\<Sum>i<k. smul6 (coord6 (fst (finished ! i)) k) (unit6 i))"
  from ech have len: "length finished = k"
    and old_fin: "\<And>i j. i < k \<Longrightarrow> j < k \<Longrightarrow>
        coord6 (fst (finished ! i)) j = (if i = j then 1 else 0)"
    and old_todo: "\<And>r j. r \<in> set todo \<Longrightarrow> j < k \<Longrightarrow> coord6 (fst r) j = 0"
    unfolding echelon_def by auto
  have dot: "dot6 a x = coord6 a k - (\<Sum>i<k. coord6 (fst (finished ! i)) k * coord6 a i)" for a
  proof -
    have "(\<Sum>i<k. dot6 a (smul6 (coord6 (fst (finished ! i)) k) (unit6 i)))
        = (\<Sum>i<k. coord6 (fst (finished ! i)) k * coord6 a i)"
      by (rule sum.cong) (use k in \<open>simp_all add: dot6_unit6 del: unit6.simps\<close>)
    then show ?thesis unfolding x_def using k
      by (simp add: dot6_sum dot6_unit6 del: unit6.simps)
  qed
  have "coord6 x k = 1 - (\<Sum>i<k. coord6 (fst (finished ! i)) k * coord6 (unit6 i) k)"
    unfolding x_def using k by (simp add: coord6_sum coord6_unit6 del: unit6.simps)
  also have "(\<Sum>i<k. coord6 (fst (finished ! i)) k * coord6 (unit6 i) k) = (\<Sum>i<k. 0)"
    by (rule sum.cong) (use k in \<open>simp_all add: coord6_unit6 del: unit6.simps\<close>)
  finally have "coord6 x k = 1" by simp
  then have nz: "x \<noteq> 0" by auto
  have "dot6 (fst r) x = 0" if "r \<in> set (finished @ todo)" for r
  proof (cases "r \<in> set todo")
    case True
    have "(\<Sum>i<k. coord6 (fst (finished ! i)) k * coord6 (fst r) i) = (\<Sum>i<k. 0)"
      by (rule sum.cong) (use old_todo [OF True] in simp_all)
    then show ?thesis using none True by (simp add: dot)
  next
    case False
    then have "r \<in> set finished" using that by simp
    then obtain i' where i': "i' < k" "r = finished ! i'"
      using len by (auto simp add: in_set_conv_nth)
    have "(\<Sum>i<k. coord6 (fst (finished ! i)) k * coord6 (fst r) i)
        = (\<Sum>i<k. if i' = i then coord6 (fst (finished ! i)) k else 0)"
      by (rule sum.cong) (use old_fin [OF i'(1)] i'(2) in simp_all)
    also have "\<dots> = coord6 (fst r) k" using i' by simp
    finally show ?thesis by (simp add: dot)
  qed
  then show ?thesis using nz by blast
qed

lemma gauss_jordan_run:
  assumes "gj_inv M k finished todo" and "k + m = 6"
  shows "case gauss_jordan [k..<k + m] finished todo of
           Inl e \<Rightarrow> e = LinAlgError \<and> (\<exists>x. x \<noteq> 0 \<and> mv6 M x = 0)
         | Inr fin \<Rightarrow> gj_inv M 6 fin []"
  using assms
proof (induction m arbitrary: k finished todo)
  case 0
  then have "echelon 6 finished todo" unfolding gj_inv_def by simp
  then have "todo = []" unfolding echelon_def by simp
  then show ?case using 0 by simp
next
  case (Suc m)
  have upt: "[k..<k + Suc m] = k # [Suc k..<Suc k + m]"
    by (simp add: upt_conv_Cons)
  from Suc.prems have k: "k < 6" by simp
  show ?case
  proof (cases "find_pivot k todo")
    case None
    from Suc.prems(1) have ech: "echelon k finished todo"
      and kk: "kernel_kept M (finished @ todo)"
      unfolding gj_inv_def by simp_all
    from no_pivot_kernel [OF ech k find_pivot_None [OF None]]
    obtain x where "x \<noteq> 0" "\<forall>r\<in>set (finished @ todo). dot6 (fst r) x = 0" by blast
    then have "x \<noteq> 0 \<and> mv6 M x = 0" using kk unfolding kernel_kept_def by blast
    then show ?thesis unfolding upt using None by auto
  next
    case (Some a)
    obtain r rest where a: "a = (r, rest)" by (cases a)
    have fp: "find_pivot k todo = Some (r, rest)" using Some a by simp
    have eq: "gauss_jordan [k..<k + Suc m] finished todo =
      gauss_jordan [Suc k..<Suc k + m]
        (map (eliminate k (scale_row (1 / coord6 (fst r) k) r)) finished
              @ [scale_row (1 / coord6 (fst r) k) r])
        (map (eliminate k (scale_row (1 / coord6 (fst r) k) r)) rest)"
      unfolding upt using fp by (simp add: Let_def)
    show ?thesis unfolding eq
      by (rule Suc.IH [OF step_gj_inv [OF Suc.prems(1) fp]]) (use Suc.prems(2) in simp)
  qed
qed

lemma gj_inv_start: "gj_inv M 0 [] (zip (rows6 M) (rows6 1))"
proof -
  let ?rows = "zip (rows6 M) (rows6 1)"
  have mem: "r \<in> set ?rows \<longleftrightarrow> (\<exists>i<6. r = (rows6 M ! i, unit6 i))" for r
    by (auto simp add: set_zip rows6_one simp del: unit6.simps)
  have "rows_of M ?rows"
    unfolding rows_of_def by (auto simp add: mem vm6_unit6 simp del: unit6.simps)
  moreover have "echelon 0 [] ?rows"
    unfolding echelon_def by simp
  moreover have "kernel_kept M ?rows"
    unfolding kernel_kept_def
  proof (intro allI impI)
    fix x
    assume h: "\<forall>r\<in>set ?rows. dot6 (fst r) x = 0"
    show "mv6 M x = 0"
    proof (rule vec6_eqI)
      fix i :: nat
      assume i: "i < 6"
      then have "(rows6 M ! i, unit6 i) \<in> set ?rows" unfolding mem by blast
      then have "dot6 (rows6 M ! i) x = 0" using h by fastforce
      then show "coord6 (mv6 M x) i = coord6 0 i" using i by (simp add: coord6_mv6)
    qed
  qed
  moreover have "independent ?rows"
    unfolding independent_def
  proof (intro allI impI)
    fix y
    assume h: "\<forall>r\<in>set ?rows. dot6 (snd r) y = 0"
    show "y = 0"
    proof (rule vec6_eqI)
      fix i :: nat
      assume i: "i < 6"
      then have "(rows6 M ! i, unit6 i) \<in> set ?rows" unfolding mem by blast
      then have "dot6 (unit6 i) y = 0" using h by fastforce
      then show "coord6 y i = coord6 0 i" using i by (simp add: dot6_unit6 del: unit6.simps)
    qed
  qed
  ultimately show ?thesis unfolding gj_inv_def by simp
qed

lemma mat6_eqI:
  assumes "\<And>u. mv6 X u = mv6 Y u"
  shows "X = Y"
proof (rule rows6_inject, rule nth_equalityI)
  show "length (rows6 X) = length (rows6 Y)" by simp
  fix i
  assume "i < length (rows6 X)"
  then have i: "i < 6" by simp
  show "rows6 X ! i = rows6 Y ! i"
  proof (rule vec6_eqI)
    fix j :: nat
    assume j: "j < 6"
    have "coord6 (mv6 X (unit6 j)) i = coord6 (mv6 Y (unit6 j)) i" using assms by simp
    then show "coord6 (rows6 X ! i) j = coord6 (rows6 Y ! i) j"
      using i j by (simp add: coord6_mv6 dot6_unit6 del: unit6.simps)
  qed
qed

lemma gj_inv_finish:
  assumes "gj_inv M 6 fin []"
  shows "of_rows6 (map snd fin) * M = 1 \<and> M * of_rows6 (map snd fin) = 1"
proof -
  define E where "E = of_rows6 (map snd fin)"
  from assms have ro: "\<And>r. r \<in> set fin \<Longrightarrow> fst r = vm6 (snd r) M"
    and len: "length fin = 6"
    and un: "\<And>i j. i < 6 \<Longrightarrow> j < 6 \<Longrightarrow> coord6 (fst (fin ! i)) j = (if i = j then 1 else 0)"
    and ind: "\<And>y. (\<forall>r\<in>set fin. dot6 (snd r) y = 0) \<Longrightarrow> y = 0"
    unfolding gj_inv_def rows_of_def echelon_def independent_def by auto
  have rE: "rows6 E = map snd fin" unfolding E_def using len by (simp add: rows6_of_rows6)
  have "rows6 (E * M) = rows6 1"
  proof (rule nth_equalityI)
    show "length (rows6 (E * M)) = length (rows6 (1::mat6))" by simp
    fix i
    assume "i < length (rows6 (E * M))"
    then have i: "i < 6" by simp
    then have mem: "fin ! i \<in> set fin" using len by simp
    have "rows6 (E * M) ! i = vm6 (snd (fin ! i)) M"
      using i len by (simp add: rows6_times rE)
    also have "\<dots> = fst (fin ! i)" using ro [OF mem] by simp
    also have "\<dots> = unit6 i"
      by (rule vec6_eqI) (use i un in \<open>simp add: coord6_unit6 del: unit6.simps\<close>)
    also have "\<dots> = rows6 1 ! i" using i by (simp add: rows6_one del: unit6.simps upt_Suc)
    finally show "rows6 (E * M) ! i = rows6 1 ! i" .
  qed
  then have left: "E * M = 1" by (rule rows6_inject)
  have inj: "u = 0" if "mv6 E u = 0" for u
  proof (rule ind, rule ballI)
    fix r
    assume "r \<in> set fin"
    then obtain i where i: "i < 6" "r = fin ! i" using len by (auto simp add: in_set_conv_nth)
    have "coord6 (mv6 E u) i = 0" using that by simp
    then show "dot6 (snd r) u = 0" using i len by (simp add: coord6_mv6 rE)
  qed
  have "M * E = 1"
  proof (rule mat6_eqI)
    fix u
    have "mv6 E (mv6 (M * E) u - mv6 1 u) = mv6 (E * M) (mv6 E u) - mv6 E u"
      by simp
    also have "\<dots> = 0" unfolding left by simp
    finally have "mv6 (M * E) u - mv6 1 u = 0" by (rule inj)
    then show "mv6 (M * E) u = mv6 1 u" by simp
  qed
  then show ?thesis using left unfolding E_def by simp
qed

lemma linalg_inv_Inr:
  assumes "linalg_inv M = Inr Minv"
  shows "Minv * M = 1 \<and> M * Minv = 1"
proof -
  from assms obtain fin where g: "gauss_jordan [0..<6] [] (zip (rows6 M) (rows6 1)) = Inr fin"
    and m: "Minv = of_rows6 (map snd fin)"
    unfolding linalg_inv_def by (auto split: sum.splits)
  have "gj_inv M 6 fin []"
    using gauss_jordan_run [OF gj_inv_start, of 6 M] g by simp
  then show ?thesis unfolding m by (rule gj_inv_finish)
qed

lemma linalg_inv_Inl:
  assumes "linalg_inv M = Inl e"
  shows "e = LinAlgError \<and> (\<exists>x. x \<noteq> 0 \<and> mv6 M x = 0)"
proof -
  from assms have g: "gauss_jordan [0..<6] [] (zip (rows6 M) (rows6 1)) = Inl e"
    unfolding linalg_inv_def by (auto split: sum.splits)
  show ?thesis using gauss_jordan_run [OF gj_inv_start, of 6 M] g by simp
qed

text \<open>The inverse of an invertible matrix is found.\<close>

lemma linalg_inv_invertible:
  assumes "B * M = 1"
  shows "linalg_inv M = Inr B"
proof (cases "linalg_inv M")
  case (Inl e)
  then obtain x where x: "x \<noteq> 0" "mv6 M x = 0" using linalg_inv_Inl by blast
  have "x = mv6 (B * M) x" unfolding assms by simp
  also have "\<dots> = 0" using x(2) by simp
  finally show ?thesis using x(1) by simp
next
  case (Inr Minv)
  then have "M * Minv = 1" using linalg_inv_Inr by blast
  then have "B = B * (M * Minv)" by simp
  also have "\<dots> = (B * M) * Minv" by (simp only: mult.assoc)
  also have "\<dots> = Minv" unfolding assms by simp
  finally show ?thesis using Inr by simp
qed

text \<open>A matrix with a nonzero vector in its kernel has no inverse: \<open>LinAlgError\<close>.\<close>

lemma linalg_inv_singular:
  assumes "x \<noteq> 0" and "mv6 M x = 0"
  shows "linalg_inv M = Inl LinAlgError"
proof (cases "linalg_inv M")
  case (Inl e)
  then show ?thesis using linalg_inv_Inl by blast
next
  case (Inr Minv)
  then have "Minv * M = 1" using linalg_inv_Inr by blast
  then have "x = mv6 (Minv * M) x" by simp
  also have "\<dots> = 0" using assms(2) by simp
  finally show ?thesis using assms(1) by simp
qed

section \<open>The rotation matrix of a quaternion\<close>

lemma as_rotation_matrix_Inl:
  "as_rotation_matrix q = Inl e \<longleftrightarrow> qnorm2 q = 0 \<and> e = ZeroDivisionError"
  by (cases q) (auto simp add: Let_def)

lemma as_rotation_matrix_Inr:
  assumes "qnorm2 q \<noteq> 0"
  shows "as_rotation_matrix q = Inr (smat3 (1 / qnorm2 q) (rotation_numerator q))"
proof -
  obtain w x y z where q: "q = Quaternion w x y z" by (cases q)
  define n where "n = w * w + x * x + y * y + z * z"
  have n0: "n \<noteq> 0" using assms unfolding q n_def by simp
  have c1: "1 / n * (n - 2 * a) = 1 - 2 * a / n" for a
    using n0 by (simp add: field_simps)
  have c2: "1 / n * (2 * b) = 2 * b / n" for b
    by simp
  have "as_rotation_matrix q = Inr (Mat3
        (Vec3 (1 - 2 * (y * y + z * z) / n) (2 * (x * y - z * w) / n) (2 * (x * z + y * w) / n))
        (Vec3 (2 * (x * y + z * w) / n) (1 - 2 * (x * x + z * z) / n) (2 * (y * z - x * w) / n))
        (Vec3 (2 * (x * z - y * w) / n) (2 * (y * z + x * w) / n) (1 - 2 * (x * x + y * y) / n)))"
    unfolding q as_rotation_matrix.simps Let_def n_def [symmetric]
    by (simp only: n0 if_False)
  moreover have "smat3 (1 / qnorm2 q) (rotation_numerator q) = Mat3
        (Vec3 (1 - 2 * (y * y + z * z) / n) (2 * (x * y - z * w) / n) (2 * (x * z + y * w) / n))
        (Vec3 (2 * (x * y + z * w) / n) (1 - 2 * (x * x + z * z) / n) (2 * (y * z - x * w) / n))
        (Vec3 (2 * (x * z - y * w) / n) (2 * (y * z + x * w) / n) (1 - 2 * (x * x + y * y) / n))"
    unfolding q rotation_numerator.simps qnorm2.simps Let_def smat3.simps smul3.simps
      n_def [symmetric]
    by (simp only: c1 c2)
  ultimately show ?thesis by simp
qed

lemma smat3_mult: "smat3 c A * smat3 d B = smat3 (c * d) (A * B)"
proof -
  obtain a0 a1 a2 a3 a4 a5 a6 a7 a8
    where A: "A = Mat3 (Vec3 a0 a1 a2) (Vec3 a3 a4 a5) (Vec3 a6 a7 a8)"
    by (rule mat3_exhaust)
  obtain b0 b1 b2 b3 b4 b5 b6 b7 b8
    where B: "B = Mat3 (Vec3 b0 b1 b2) (Vec3 b3 b4 b5) (Vec3 b6 b7 b8)"
    by (rule mat3_exhaust)
  show ?thesis unfolding A B by (simp add: algebra_simps)
qed

lemma transpose3_smat3: "transpose3 (smat3 c A) = smat3 c (transpose3 A)"
proof -
  obtain a0 a1 a2 a3 a4 a5 a6 a7 a8
    where A: "A = Mat3 (Vec3 a0 a1 a2) (Vec3 a3 a4 a5) (Vec3 a6 a7 a8)"
    by (rule mat3_exhaust)
  show ?thesis unfolding A by simp
qed

lemma smat3_smat3: "smat3 c (smat3 d A) = smat3 (c * d) A"
  by (cases A) simp

lemma smat3_one: "smat3 1 A = A"
  by (cases A) simp

lemma rotation_numerator_orthogonal:
  "rotation_numerator q * transpose3 (rotation_numerator q) = smat3 (qnorm2 q * qnorm2 q) 1"
  "transpose3 (rotation_numerator q) * rotation_numerator q = smat3 (qnorm2 q * qnorm2 q) 1"
  by (cases q; simp add: Let_def one_mat3_def algebra_simps)+

lemma as_rotation_matrix_orthogonal:
  assumes "as_rotation_matrix q = Inr R"
  shows "R * transpose3 R = 1" and "transpose3 R * R = 1"
proof -
  from assms have n: "qnorm2 q \<noteq> 0"
    using as_rotation_matrix_Inl [of q ZeroDivisionError] by auto
  then have R: "R = smat3 (1 / qnorm2 q) (rotation_numerator q)"
    using assms as_rotation_matrix_Inr [of q] by simp
  have c: "1 / qnorm2 q * (1 / qnorm2 q) * (qnorm2 q * qnorm2 q) = 1" using n by simp
  show "R * transpose3 R = 1"
    unfolding R
    by (simp only: transpose3_smat3 smat3_mult rotation_numerator_orthogonal smat3_smat3 c smat3_one)
  show "transpose3 R * R = 1"
    unfolding R
    by (simp only: transpose3_smat3 smat3_mult rotation_numerator_orthogonal smat3_smat3 c smat3_one)
qed

section \<open>The inertia in the fixed frame\<close>

lemma transpose3_zero [simp]: "transpose3 0 = 0"
  by (simp add: zero_mat3_def zero_vec3_def)

lemma transpose6_block_diag:
  "transpose6 (block_diag A B) = block_diag (transpose3 A) (transpose3 B)"
  by (simp add: block_diag_def)

lemma block_diag_mult: "block_diag A B * block_diag C D = block_diag (A * C) (B * D)"
  by (simp add: block_diag_def)

lemma block_diag_one: "block_diag 1 1 = 1"
  by (simp add: block_diag_def one_mat6_def)

lemma rotation6_orthogonal:
  assumes "as_rotation_matrix q = Inr R"
  shows "block_diag R R * transpose6 (block_diag R R) = 1"
    and "transpose6 (block_diag R R) * block_diag R R = 1"
  using as_rotation_matrix_orthogonal [OF assms]
  by (simp_all add: transpose6_block_diag block_diag_mult block_diag_one)

lemma fixed_frame_inertia_inverse:
  assumes R: "as_rotation_matrix q = Inr R" and B: "B * M_body = 1"
  shows "fixed_frame_inertia R B * fixed_frame_inertia R M_body = 1"
proof -
  let ?RR = "block_diag R R"
  have "fixed_frame_inertia R B * fixed_frame_inertia R M_body
      = ?RR * (B * ((transpose6 ?RR * ?RR) * (M_body * transpose6 ?RR)))"
    unfolding fixed_frame_inertia_def by (simp only: mult.assoc)
  also have "\<dots> = ?RR * ((B * M_body) * transpose6 ?RR)"
    unfolding rotation6_orthogonal [OF R] by (simp only: mult_1_left mult.assoc)
  also have "\<dots> = 1"
    unfolding B using rotation6_orthogonal [OF R] by simp
  finally show ?thesis .
qed

lemma fixed_frame_inertia_singular:
  assumes R: "as_rotation_matrix q = Inr R" and x: "x \<noteq> 0" "mv6 M_body x = 0"
  shows "mv6 (block_diag R R) x \<noteq> 0"
    and "mv6 (fixed_frame_inertia R M_body) (mv6 (block_diag R R) x) = 0"
proof -
  let ?RR = "block_diag R R"
  have rt: "mv6 (transpose6 ?RR) (mv6 ?RR x) = x"
    using rotation6_orthogonal(2) [OF R] by (simp flip: mv6_mat_simps(4))
  then show "mv6 ?RR x \<noteq> 0" using x(1) by auto
  have "mv6 (fixed_frame_inertia R M_body) (mv6 ?RR x)
      = mv6 ?RR (mv6 M_body (mv6 (transpose6 ?RR) (mv6 ?RR x)))"
    unfolding fixed_frame_inertia_def by simp
  then show "mv6 (fixed_frame_inertia R M_body) (mv6 ?RR x) = 0"
    unfolding rt x(2) by simp
qed

lemma eom_unfold:
  "eom spatial_inertia_body pose \<nu> \<tau> =
     (case as_rotation_matrix (pose_q pose) of
        Inl e \<Rightarrow> Inl e
      | Inr R \<Rightarrow>
          (case linalg_inv (fixed_frame_inertia R spatial_inertia_body) of
             Inl e \<Rightarrow> Inl e
           | Inr Minv \<Rightarrow>
               Inr (mv6 Minv (\<tau> - mv6 (coriolis (fixed_frame_inertia R spatial_inertia_body) \<nu>) \<nu>)
                    + mv6 (block_diag (hat (ang \<nu>)) (hat (ang \<nu>))) \<nu>)))"
  by (simp add: eom_def eomB_def Let_def fixed_frame_inertia_def coriolis_def
      split: sum.splits)

section \<open>The equations of motion and the pose\<close>

text \<open>
  C10. The equations of motion read the orientation of the pose and nothing else: two
  poses with the same orientation give the same result, whatever their positions and
  timestamps.
\<close>

theorem eom_depends_on_orientation_only:
  "pose_q pose1 = pose_q pose2 \<Longrightarrow>
   generate_equations_of_motion spatial_inertia_body pose1 vels forces =
   generate_equations_of_motion spatial_inertia_body pose2 vels forces"
  by (simp add: generate_equations_of_motion_def eom_def)

theorem eom_depends_on_orientation_only_witness:
  "pose_q \<lparr>pose_t = 0, pose_p = Vec3 0 0 0, pose_q = Quaternion 1 0 0 0\<rparr> =
     pose_q \<lparr>pose_t = 7, pose_p = Vec3 1 2 3, pose_q = Quaternion 1 0 0 0\<rparr> \<and>
   generate_equations_of_motion 1
     \<lparr>pose_t = 0, pose_p = Vec3 0 0 0, pose_q = Quaternion 1 0 0 0\<rparr>
     (Vec6 (Vec3 1 0 0) (Vec3 0 0 1)) (Vec6 (Vec3 0 1 0) (Vec3 0 0 0)) =
   generate_equations_of_motion 1
     \<lparr>pose_t = 7, pose_p = Vec3 1 2 3, pose_q = Quaternion 1 0 0 0\<rparr>
     (Vec6 (Vec3 1 0 0) (Vec3 0 0 1)) (Vec6 (Vec3 0 1 0) (Vec3 0 0 0))"
  using eom_depends_on_orientation_only
    [of "\<lparr>pose_t = 0, pose_p = Vec3 0 0 0, pose_q = Quaternion 1 0 0 0\<rparr>"
        "\<lparr>pose_t = 7, pose_p = Vec3 1 2 3, pose_q = Quaternion 1 0 0 0\<rparr>"
        1 "Vec6 (Vec3 1 0 0) (Vec3 0 0 1)" "Vec6 (Vec3 0 1 0) (Vec3 0 0 0)"]
  by simp

end
